theory Spec2Isabelle
  imports Complex_Main "HOL-Library.Word" "HOL-Library.Log_Nat" "HOL-Library.Sublist"
begin

section \<open>Strings\<close>

text \<open>
  A JavaScript string is a sequence of UTF-16 code units. \<open>lit\<close> embeds the ASCII
  literals of the source.
\<close>

type_synonym code_unit = "16 word"
type_synonym js_string = "code_unit list"

definition lit :: "string \<Rightarrow> js_string" where
  "lit cs = map of_char cs"

text \<open>
  \<open>String.prototype.trim\<close> strips the code units of WhiteSpace and LineTerminator
  (ECMA-262) from both ends; all of them lie in the basic plane.
\<close>

definition isWhiteSpace :: "code_unit \<Rightarrow> bool" where
  "isWhiteSpace c \<longleftrightarrow>
     c \<in> {0x0009, 0x000A, 0x000B, 0x000C, 0x000D, 0x0020, 0x00A0, 0x1680,
          0x2028, 0x2029, 0x202F, 0x205F, 0x3000, 0xFEFF}
     \<or> (0x2000 \<le> c \<and> c \<le> 0x200A)"

definition trim :: "js_string \<Rightarrow> js_string" where
  "trim s = rev (dropWhile isWhiteSpace (rev (dropWhile isWhiteSpace s)))"

text \<open>\<open>Array.prototype.join\<close> on an array of strings.\<close>

fun join :: "js_string \<Rightarrow> js_string list \<Rightarrow> js_string" where
  "join sep [] = []"
| "join sep [x] = x"
| "join sep (x # y # ys) = x @ sep @ join sep (y # ys)"

section \<open>Numbers\<close>

text \<open>
  A finite Number is a binary64 value, modelled by the rational it denotes.
  \<open>ilog2 x\<close> is the binary exponent of a positive \<open>x\<close>, \<open>ulp_exp x\<close> the exponent of
  the last place of its binary64 neighbourhood (53 significant bits, subnormals below
  \<open>2 powi -1022\<close>), and \<open>fl\<close> rounds a rational to the nearest binary64 value, ties to
  even. The exponent is not clipped above: \<open>fl\<close> is used on products below 10000 only.
\<close>

definition ilog2 :: "rat \<Rightarrow> int" where
  "ilog2 x = (let (p, q) = quotient_of x; d = bitlen p - bitlen q
              in if 2 powi d \<le> x then d else d - 1)"

definition ulp_exp :: "rat \<Rightarrow> int" where
  "ulp_exp x = max (ilog2 \<bar>x\<bar>) (- 1022) - 52"

definition is_double :: "rat \<Rightarrow> bool" where
  "is_double x \<longleftrightarrow>
     x = 0 \<or> (ilog2 \<bar>x\<bar> \<le> 1023 \<and>
              (let m = x / 2 powi (ulp_exp x) in of_int \<lfloor>m\<rfloor> = m))"

definition roundTiesToEven :: "rat \<Rightarrow> int" where
  "roundTiesToEven y =
     (let f = \<lfloor>y\<rfloor>; d = y - of_int f
      in if d < 1 / 2 then f else if 1 / 2 < d then f + 1
         else if even f then f else f + 1)"

definition fl :: "rat \<Rightarrow> rat" where
  "fl x = (if x = 0 then 0
           else let q = 2 powi (ulp_exp x) in q * of_int (roundTiesToEven (x / q)))"

text \<open>
  \<open>Math.random()\<close> returns a Number that is at least 0 and less than 1; which one is up
  to the engine. \<open>unit_double\<close> is the type of these values.
\<close>

typedef unit_double = "{x :: rat. is_double x \<and> 0 \<le> x \<and> x < 1}"
  by (rule exI [of _ 0]) (simp add: is_double_def)

setup_lifting type_definition_unit_double

text \<open>A way to write such a value down: \<open>x\<close> itself when it qualifies, else 0.\<close>

lift_definition unit_double_of :: "rat \<Rightarrow> unit_double"
  is "\<lambda>x. if is_double x \<and> 0 \<le> x \<and> x < 1 then x else 0"
  by (simp add: is_double_def [of 0])

definition Math_floor :: "rat \<Rightarrow> int" where
  "Math_floor x = \<lfloor>x\<rfloor>"

text \<open>Line 92: \<open>Math.floor(Math.random() * 10000)\<close>, with \<open>r\<close> the value drawn.\<close>

definition orderNumber :: "unit_double \<Rightarrow> int" where
  "orderNumber r = Math_floor (fl (Rep_unit_double r * 10000))"

text \<open>
  \<open>Number.prototype.toString\<close> on an integer below \<open>10^21\<close> in magnitude: the decimal
  digits, most significant first, after a minus sign when negative.
\<close>

fun digits :: "nat \<Rightarrow> js_string" where
  "digits n = (if n < 10 then [of_nat (48 + n)]
               else digits (n div 10) @ [of_nat (48 + n mod 10)])"

declare digits.simps [simp del]

definition Number_toString :: "int \<Rightarrow> js_string" where
  "Number_toString n = (if n < 0 then 0x2D # digits (nat (- n)) else digits (nat n))"

section \<open>Data model\<close>

datatype sender = User | Bot | Loading

text \<open>
  The type \<open>Message\<close> (lines 7 to 10). The text is \<open>None\<close> where the source stores
  \<open>undefined\<close>, which is what \<open>result.text\<close> is for a response without a text part.
\<close>

record message =
  sender :: sender
  msg_text :: "js_string option"

text \<open>
  What the remote service hands back: a function call with its optional fields, and a
  response with the two getters the handler reads. The schema of lines 24 to 40
  declares \<open>items\<close> as an array of strings; \<open>None\<close> is a missing field.
\<close>

record args =
  items :: "js_string list option"

record function_call =
  fc_id :: "js_string option"
  fc_name :: "js_string option"
  fc_args :: "args option"

record response =
  functionCalls :: "function_call list option"
  res_text :: "js_string option"

datatype 'a promise = Fulfilled 'a | Rejected

text \<open>The two requests the handler sends through \<open>chatRef.current.sendMessage\<close>.\<close>

record function_response =
  fr_id :: "js_string option"
  fr_name :: "js_string option"
  fr_result :: js_string

datatype remote_call = SendMessage js_string | SendToolResponse function_response

datatype error = ChatNotInitialized | TypeError | CallRejected

text \<open>
  The handler is an async function: it runs up to an \<open>await\<close>, and goes on when the
  awaited promise settles. A continuation names the \<open>await\<close> it is suspended at (line 85
  or line 96) with the locals it still needs.
\<close>

datatype continuation = AwaitSend | AwaitToolResponse js_string

datatype outcome = Reply "js_string option" | Call remote_call continuation

text \<open>
  The component state of lines 13 to 18, as of the last render, together with the
  suspended handler and the log of the requests sent so far (oldest first).
  \<open>chatRef\<close> holds whether \<open>chatRef.current\<close> is set.
\<close>

record app =
  messages :: "message list"
  userInput :: js_string
  isLoading :: bool
  chatRef :: bool
  suspended :: "continuation option"
  calls :: "remote_call list"

section \<open>The handler\<close>

definition errorMessage :: message where
  "errorMessage =
     \<lparr>sender = Bot, msg_text = Some (lit ''Sorry, something went wrong. Please try again.'')\<rparr>"

text \<open>
  \<open>[...prev.slice(0, -1), m]\<close>: on an empty \<open>prev\<close> the slice is empty, as \<open>butlast\<close> is.
\<close>

definition replace_last :: "message \<Rightarrow> message list \<Rightarrow> message list" where
  "replace_last m prev = butlast prev @ [m]"

definition confirmationMessage :: "js_string list \<Rightarrow> int \<Rightarrow> js_string" where
  "confirmationMessage its n =
     lit ''Great! I've placed an order for: '' @ join (lit '', '') its
     @ lit ''. Your order number is #'' @ Number_toString n
     @ lit ''. Is there anything else?''"

definition toolResult :: "int \<Rightarrow> js_string" where
  "toolResult n = lit ''Order placed successfully. Order number: '' @ Number_toString n"

text \<open>Lines 81 to 85: the readiness check and the first request.\<close>

definition try_send :: "app \<Rightarrow> js_string \<Rightarrow> error + outcome" where
  "try_send s input =
     (if \<not> chatRef s then Inl ChatNotInitialized
      else Inr (Call (SendMessage input) AwaitSend))"

text \<open>
  Lines 91 to 104: reading \<open>fc.args.items\<close> and calling \<open>items.join\<close> raise a TypeError
  on a missing \<open>args\<close> or \<open>items\<close>.
\<close>

definition placeOrder :: "function_call \<Rightarrow> unit_double \<Rightarrow> error + outcome" where
  "placeOrder fc r =
     (case fc_args fc of
        None \<Rightarrow> Inl TypeError
      | Some a \<Rightarrow>
          (case items a of
             None \<Rightarrow> Inl TypeError
           | Some its \<Rightarrow>
               Inr (Call (SendToolResponse
                            \<lparr>fr_id = fc_id fc, fr_name = fc_name fc,
                             fr_result = toolResult (orderNumber r)\<rparr>)
                         (AwaitToolResponse (confirmationMessage its (orderNumber r))))))"

text \<open>Lines 85 to 109, from the point where the first request settles.\<close>

definition on_result :: "response promise \<Rightarrow> unit_double \<Rightarrow> error + outcome" where
  "on_result p r =
     (case p of
        Rejected \<Rightarrow> Inl CallRejected
      | Fulfilled result \<Rightarrow>
          (case functionCalls result of
             None \<Rightarrow> Inr (Reply (res_text result))
           | Some [] \<Rightarrow> Inr (Reply (res_text result))
           | Some (fc # _) \<Rightarrow>
               if fc_name fc = Some (lit ''placeOrder'') then placeOrder fc r
               else Inr (Reply (Some []))))"

text \<open>
  Lines 96 to 105, from the point where the second request settles:
  \<open>toolResponseResult.text || confirmationMessage\<close>.
\<close>

definition on_tool_result :: "js_string \<Rightarrow> response promise \<Rightarrow> error + outcome" where
  "on_tool_result confirmation p =
     (case p of
        Rejected \<Rightarrow> Inl CallRejected
      | Fulfilled toolResponseResult \<Rightarrow>
          Inr (Reply (Some (case res_text toolResponseResult of
                              None \<Rightarrow> confirmation
                            | Some t \<Rightarrow> if t = [] then confirmation else t))))"

text \<open>
  Lines 111 to 123: the bot record, the \<open>catch\<close> and the \<open>finally\<close>; a request leaves
  the handler suspended instead.
\<close>

definition finish :: "error + outcome \<Rightarrow> app \<Rightarrow> app" where
  "finish res s =
     (case res of
        Inl e \<Rightarrow>
          s\<lparr>messages := replace_last errorMessage (messages s),
            isLoading := False, suspended := None\<rparr>
      | Inr (Reply t) \<Rightarrow>
          s\<lparr>messages := replace_last \<lparr>sender = Bot, msg_text = t\<rparr> (messages s),
            isLoading := False, suspended := None\<rparr>
      | Inr (Call c k) \<Rightarrow> s\<lparr>calls := calls s @ [c], suspended := Some k\<rparr>)"

text \<open>Lines 71 to 85: the submit handler up to its first \<open>await\<close>.\<close>

definition handleSendMessage :: "app \<Rightarrow> app" where
  "handleSendMessage s =
     (if trim (userInput s) = [] \<or> isLoading s then s
      else
        let s' = s\<lparr>messages := messages s
                      @ [\<lparr>sender = User, msg_text = Some (userInput s)\<rparr>,
                         \<lparr>sender = Loading, msg_text = Some (lit ''...'')\<rparr>],
                    userInput := [], isLoading := True\<rparr>
        in finish (try_send s' (userInput s)) s')"

text \<open>
  The two requests differ in the parameter object they pass: line 85 passes
  \<open>{ message: userInput }\<close>, lines 96 to 104 pass \<open>{ toolResponse: ... }\<close> and no
  \<open>message\<close>. \<open>passes_message\<close> tells it for the request a handler is suspended at.
\<close>

fun passes_message :: "continuation \<Rightarrow> bool" where
  "passes_message AwaitSend = True"
| "passes_message (AwaitToolResponse confirmation) = False"

text \<open>
  \<open>Chat.sendMessage\<close> of the \<open>@google/genai\<close> library builds the content of the turn from
  \<open>params.message\<close> and throws when the field is missing, before any request leaves:
  the promise of such a call is rejected, whatever the service would have answered.
\<close>

definition Chat_sendMessage :: "bool \<Rightarrow> response promise \<Rightarrow> response promise" where
  "Chat_sendMessage with_message service = (if with_message then service else Rejected)"

text \<open>
  What the suspended handler does once the awaited promise settles, up to the end of
  the \<open>try\<close> block; \<open>p\<close> is the answer of the service, \<open>r\<close> is what \<open>Math.random()\<close>
  returns if it is called.
\<close>

definition after_await :: "continuation \<Rightarrow> response promise \<Rightarrow> unit_double \<Rightarrow> error + outcome" where
  "after_await k p r =
     (let settled = Chat_sendMessage (passes_message k) p
      in case k of
           AwaitSend \<Rightarrow> on_result settled r
         | AwaitToolResponse confirmation \<Rightarrow> on_tool_result confirmation settled)"

text \<open>A promise that settles when no handler awaits one changes nothing.\<close>

definition resume :: "response promise \<Rightarrow> unit_double \<Rightarrow> app \<Rightarrow> app" where
  "resume p r s =
     (case suspended s of
        None \<Rightarrow> s
      | Some k \<Rightarrow> finish (after_await k p r) s)"

section \<open>Executions\<close>

text \<open>
  What can happen to the mounted component: the form is submitted, the input field
  changes (line 345), or the request in flight settles.
\<close>

datatype event = Submit | Change js_string | Settled "response promise" unit_double

fun step :: "app \<Rightarrow> event \<Rightarrow> app" where
  "step s Submit = handleSendMessage s"
| "step s (Change v) = s\<lparr>userInput := v\<rparr>"
| "step s (Settled p r) = resume p r s"

definition run :: "app \<Rightarrow> event list \<Rightarrow> app" where
  "run s evs = foldl step s evs"

text \<open>
  The state after mounting: with \<open>ready\<close> the effect of lines 43 to 63 has created the
  chat and stored the welcome message; without it the state is that of the first
  render (lines 13 to 18), before the effect has run.
\<close>

definition welcomeMessage :: message where
  "welcomeMessage = \<lparr>sender = Bot,
      msg_text = Some (lit ''Hello! Welcome to 'The Golden Spoon'. What can I get for you today?'')\<rparr>"

definition mounted :: "bool \<Rightarrow> app" where
  "mounted ready =
     \<lparr>messages = (if ready then [welcomeMessage] else []), userInput = [], isLoading = False,
      chatRef = ready, suspended = None, calls = []\<rparr>"

section \<open>Properties of executions\<close>

text \<open>
  Events of the user, as opposed to the settling of a request.
\<close>

fun user_event :: "event \<Rightarrow> bool" where
  "user_event Submit = True"
| "user_event (Change v) = True"
| "user_event (Settled p r) = False"

text \<open>
  \<open>turn_over s s'\<close>: in \<open>s'\<close> no handler is suspended, submission is enabled again, and
  the last record of \<open>s\<close> has been replaced by a bot record.
\<close>

definition turn_over :: "app \<Rightarrow> app \<Rightarrow> bool" where
  "turn_over s s' \<longleftrightarrow>
     suspended s' = None \<and> \<not> isLoading s' \<and>
     (\<exists>b. sender b = Bot \<and> messages s' = butlast (messages s) @ [b])"

text \<open>
  The invariant of the executions: the loading flag is set exactly while a handler is
  suspended, a loading record exists exactly then, as the last record, and a handler is
  suspended only when the chat exists.
\<close>

definition turn_inv :: "app \<Rightarrow> bool" where
  "turn_inv s \<longleftrightarrow>
     (isLoading s \<longleftrightarrow> suspended s \<noteq> None)
     \<and> (\<forall>m \<in> set (butlast (messages s)). sender m \<noteq> Loading)
     \<and> (suspended s \<noteq> None \<longrightarrow> messages s \<noteq> [] \<and> sender (last (messages s)) = Loading)
     \<and> (suspended s = None \<longrightarrow> (\<forall>m \<in> set (messages s). sender m \<noteq> Loading))
     \<and> (suspended s \<noteq> None \<longrightarrow> chatRef s)"

section \<open>The guard of the submit handler\<close>

lemma after_await_AwaitSend [simp]: "after_await AwaitSend p r = on_result p r"
  by (simp add: after_await_def Chat_sendMessage_def)

lemma after_await_AwaitToolResponse [simp]:
  "after_await (AwaitToolResponse confirmation) p r = Inl CallRejected"
  by (simp add: after_await_def Chat_sendMessage_def on_tool_result_def)

lemma trim_Nil_iff: "trim s = [] \<longleftrightarrow> (\<forall>c \<in> set s. isWhiteSpace c)"
proof -
  have "dropWhile isWhiteSpace s = [] \<longleftrightarrow> (\<forall>c \<in> set s. isWhiteSpace c)"
    by simp
  moreover have "trim s = [] \<longleftrightarrow> dropWhile isWhiteSpace s = []"
  proof
    assume "trim s = []"
    then have all: "\<forall>c \<in> set (dropWhile isWhiteSpace s). isWhiteSpace c"
      by (simp add: trim_def)
    show "dropWhile isWhiteSpace s = []"
    proof (rule ccontr)
      assume ne: "dropWhile isWhiteSpace s \<noteq> []"
      then have "\<not> isWhiteSpace (hd (dropWhile isWhiteSpace s))"
        by (rule hd_dropWhile)
      with ne all show False by (meson hd_in_set)
    qed
  next
    assume "dropWhile isWhiteSpace s = []"
    then show "trim s = []" by (simp only: trim_def rev.simps dropWhile.simps)
  qed
  ultimately show ?thesis by simp
qed

lemma handleSendMessage_blank: "trim (userInput s) = [] \<Longrightarrow> handleSendMessage s = s"
  by (simp add: handleSendMessage_def)

lemma handleSendMessage_busy: "isLoading s \<Longrightarrow> handleSendMessage s = s"
  by (simp add: handleSendMessage_def)

text \<open>
  C3: a submission whose text is empty or consists of white space only changes nothing:
  no user record, no pending record, no request, the same state.
\<close>

theorem blank_submission_ignored:
  assumes "\<forall>c \<in> set (userInput s). isWhiteSpace c"
  shows "step s Submit = s"
  using assms by (simp add: handleSendMessage_blank trim_Nil_iff)

theorem blank_submission_ignored_witness:
  "step (mounted True\<lparr>userInput := lit '' ''\<rparr>) Submit = mounted True\<lparr>userInput := lit '' ''\<rparr>
   \<and> step (mounted True) Submit = mounted True"
  using blank_submission_ignored [of "mounted True\<lparr>userInput := lit '' ''\<rparr>"]
    blank_submission_ignored [of "mounted True"]
  by (simp add: lit_def isWhiteSpace_def mounted_def)

section \<open>The turn invariant\<close>

lemma finish_Inl: "finish (Inl e) s =
    s\<lparr>messages := butlast (messages s) @ [errorMessage], isLoading := False, suspended := None\<rparr>"
  by (simp add: finish_def replace_last_def)

lemma finish_Reply: "finish (Inr (Reply t)) s =
    s\<lparr>messages := butlast (messages s) @ [\<lparr>sender = Bot, msg_text = t\<rparr>],
      isLoading := False, suspended := None\<rparr>"
  by (simp add: finish_def replace_last_def)

lemma finish_Call: "finish (Inr (Call c k)) s = s\<lparr>calls := calls s @ [c], suspended := Some k\<rparr>"
  by (simp add: finish_def)

lemmas finish_simps = finish_Inl finish_Reply finish_Call

lemma sender_errorMessage: "sender errorMessage = Bot"
  by (simp add: errorMessage_def)

lemma turn_inv_mounted: "turn_inv (mounted ready)"
  by (simp add: turn_inv_def mounted_def welcomeMessage_def)

lemma turn_inv_finish_end:
  assumes "turn_inv s" and "res = Inl e \<or> res = Inr (Reply t)"
  shows "turn_inv (finish res s)"
  using assms by (auto simp: turn_inv_def finish_simps sender_errorMessage)

lemma turn_inv_finish_Call:
  assumes "turn_inv s" and "suspended s \<noteq> None"
  shows "turn_inv (finish (Inr (Call c k)) s)"
  using assms by (auto simp: turn_inv_def finish_simps)

lemma turn_inv_finish:
  assumes "turn_inv s" and "suspended s \<noteq> None"
  shows "turn_inv (finish res s)"
proof (cases res)
  case (Inl e)
  with assms(1) show ?thesis by (simp add: turn_inv_finish_end)
next
  case (Inr out)
  with assms show ?thesis
    by (cases out) (simp_all add: turn_inv_finish_end turn_inv_finish_Call)
qed

lemma turn_inv_resume: "turn_inv s \<Longrightarrow> turn_inv (resume p r s)"
  by (cases "suspended s") (simp_all add: resume_def turn_inv_finish)

lemma turn_inv_handleSendMessage:
  assumes "turn_inv s"
  shows "turn_inv (handleSendMessage s)"
proof (cases "trim (userInput s) = [] \<or> isLoading s")
  case True
  with assms show ?thesis by (simp add: handleSendMessage_def)
next
  case False
  with assms show ?thesis
    by (auto simp: handleSendMessage_def Let_def try_send_def turn_inv_def finish_simps
        sender_errorMessage butlast_append)
qed

lemma turn_inv_step: "turn_inv s \<Longrightarrow> turn_inv (step s ev)"
proof (cases ev)
  case Submit
  assume "turn_inv s"
  with Submit show ?thesis by (simp add: turn_inv_handleSendMessage)
next
  case (Change v)
  assume "turn_inv s"
  with Change show ?thesis by (simp add: turn_inv_def)
next
  case (Settled p r)
  assume "turn_inv s"
  with Settled show ?thesis by (simp add: turn_inv_resume)
qed

lemma turn_inv_run: "turn_inv s \<Longrightarrow> turn_inv (run s evs)"
  unfolding run_def by (induction evs arbitrary: s) (simp_all add: turn_inv_step)

lemma turn_inv_reachable: "turn_inv (run (mounted ready) evs)"
  by (simp add: turn_inv_run turn_inv_mounted)

section \<open>Turns in flight\<close>

lemma user_event_in_flight:
  assumes "isLoading s" and "user_event ev"
  shows "isLoading (step s ev) \<and> messages (step s ev) = messages s
         \<and> calls (step s ev) = calls s \<and> suspended (step s ev) = suspended s"
  using assms by (cases ev) (simp_all add: handleSendMessage_busy)

lemma user_events_in_flight:
  assumes "isLoading s" and "list_all user_event us"
  shows "isLoading (run s us) \<and> messages (run s us) = messages s
         \<and> calls (run s us) = calls s \<and> suspended (run s us) = suspended s"
  using assms
proof (induction us arbitrary: s)
  case Nil
  then show ?case by (simp add: run_def)
next
  case (Cons ev us)
  from Cons.prems have ev: "user_event ev" and us: "list_all user_event us"
    by simp_all
  note one = user_event_in_flight [OF Cons.prems(1) ev]
  from one have "isLoading (step s ev)" by simp
  from Cons.IH [OF this us] one show ?case by (simp add: run_def)
qed

text \<open>
  C4: in a state reached from the mounted component in which a turn is in flight
  (the loading flag is set, a handler is suspended at line 85 or line 96), a submission
  changes nothing, and no sequence of user events adds a record or a request: a new
  turn starts only after the turn in flight is over.
\<close>

theorem in_flight_submission_ignored:
  assumes "s = run (mounted ready) evs" and "isLoading s \<or> suspended s \<noteq> None"
  shows "step s Submit = s \<and>
         (\<forall>us. list_all user_event us \<longrightarrow>
            messages (run s us) = messages s \<and> calls (run s us) = calls s
            \<and> suspended (run s us) = suspended s \<and> isLoading (run s us))"
proof -
  have "turn_inv s" using assms(1) by (simp add: turn_inv_reachable)
  with assms(2) have busy: "isLoading s" by (auto simp: turn_inv_def)
  then show ?thesis by (simp add: handleSendMessage_busy user_events_in_flight)
qed

lemma run_hi: "run (mounted True) [Change (lit ''hi''), Submit] =
   \<lparr>messages = [welcomeMessage, \<lparr>sender = User, msg_text = Some (lit ''hi'')\<rparr>,
                \<lparr>sender = Loading, msg_text = Some (lit ''...'')\<rparr>],
    userInput = [], isLoading = True, chatRef = True, suspended = Some AwaitSend,
    calls = [SendMessage (lit ''hi'')]\<rparr>"
  by (simp add: run_def mounted_def handleSendMessage_def trim_def isWhiteSpace_def
      lit_def try_send_def finish_def)

theorem in_flight_submission_ignored_witness:
  "isLoading (run (mounted True) [Change (lit ''hi''), Submit])
   \<and> step (run (mounted True) [Change (lit ''hi''), Submit]) Submit
       = run (mounted True) [Change (lit ''hi''), Submit]
   \<and> calls (run (run (mounted True) [Change (lit ''hi''), Submit]) [Change (lit ''more''), Submit])
       = [SendMessage (lit ''hi'')]"
proof -
  have busy: "isLoading (run (mounted True) [Change (lit ''hi''), Submit])"
    by (simp add: run_hi)
  have "list_all user_event [Change (lit ''more''), Submit]" by simp
  with in_flight_submission_ignored [OF refl, of True "[Change (lit ''hi''), Submit]"] busy
  show ?thesis by (simp add: run_hi)
qed

lemma on_tool_result_cases:
  "(\<exists>e. on_tool_result c p = Inl e) \<or> (\<exists>t. on_tool_result c p = Inr (Reply t))"
  by (cases p) (simp_all add: on_tool_result_def)

lemma placeOrder_cases:
  "(\<exists>e. placeOrder fc r = Inl e)
   \<or> (\<exists>fr c. placeOrder fc r = Inr (Call (SendToolResponse fr) (AwaitToolResponse c)))"
  by (simp add: placeOrder_def split: option.split)

lemma on_result_cases:
  "(\<exists>e. on_result p r = Inl e) \<or> (\<exists>t. on_result p r = Inr (Reply t))
   \<or> (\<exists>fr c. on_result p r = Inr (Call (SendToolResponse fr) (AwaitToolResponse c)))"
  using placeOrder_cases
  by (cases p) (auto simp: on_result_def split: option.split list.split)

lemma turn_over_finish_end:
  assumes "res = Inl e \<or> res = Inr (Reply t)"
  shows "turn_over s (finish res s)"
  using assms by (auto simp: turn_over_def finish_simps sender_errorMessage)

lemma resume_tool_response:
  assumes "suspended s1 = Some (AwaitToolResponse c)" and "messages s1 = messages s"
  shows "turn_over s (resume p r s1)"
proof -
  have "turn_over s1 (resume p r s1)"
    using on_tool_result_cases [of c p] assms(1)
    by (auto simp: resume_def intro: turn_over_finish_end)
  with assms(2) show ?thesis by (simp add: turn_over_def)
qed

lemma resume_progress:
  assumes "suspended s \<noteq> None"
  shows "turn_over s (resume p r s)
         \<or> (suspended (resume p r s) \<noteq> None \<and> messages (resume p r s) = messages s
             \<and> (\<forall>p' r'. turn_over s (resume p' r' (resume p r s))))"
proof -
  from assms obtain k where k: "suspended s = Some k" by auto
  show ?thesis
  proof (cases k)
    case AwaitSend
    from on_result_cases [of p r] show ?thesis
    proof (elim disjE exE)
      fix e assume "on_result p r = Inl e"
      with k AwaitSend show ?thesis by (simp add: resume_def turn_over_finish_end)
    next
      fix t assume "on_result p r = Inr (Reply t)"
      with k AwaitSend show ?thesis by (simp add: resume_def turn_over_finish_end)
    next
      fix fr c assume "on_result p r = Inr (Call (SendToolResponse fr) (AwaitToolResponse c))"
      with k AwaitSend have s1: "resume p r s
          = s\<lparr>calls := calls s @ [SendToolResponse fr], suspended := Some (AwaitToolResponse c)\<rparr>"
        by (simp add: resume_def finish_simps)
      then have "suspended (resume p r s) = Some (AwaitToolResponse c)"
        and "messages (resume p r s) = messages s" by simp_all
      then show ?thesis by (simp add: resume_tool_response)
    qed
  next
    case (AwaitToolResponse c)
    with k have "turn_over s (resume p r s)" by (simp add: resume_tool_response)
    then show ?thesis ..
  qed
qed

lemma filter_butlast_none:
  assumes "\<forall>m \<in> set (butlast ms). \<not> P m"
  shows "length (filter P ms) \<le> 1"
proof (cases ms rule: rev_cases)
  case Nil
  then show ?thesis by simp
next
  case (snoc ys y)
  with assms have "filter P ys = []" by (simp add: filter_empty_conv)
  with snoc show ?thesis by simp
qed

text \<open>
  C1, as amended: in every state reached from the mounted component the transcript holds
  at most one loading record, only as its last record, and exactly while a handler is
  suspended; once the awaited request settles, the loading record is replaced by a bot
  record (the reply or the error record), at the first settlement or, after a tool
  response was sent, at the second. Nothing bounds the time a request takes to settle.
\<close>

theorem pending_record_invariant:
  assumes "s = run (mounted ready) evs"
  shows "length (filter (\<lambda>m. sender m = Loading) (messages s)) \<le> 1
       \<and> (\<forall>m \<in> set (butlast (messages s)). sender m \<noteq> Loading)
       \<and> ((\<exists>m \<in> set (messages s). sender m = Loading) \<longleftrightarrow> suspended s \<noteq> None)
       \<and> (suspended s \<noteq> None \<longrightarrow>
            (\<forall>p r. turn_over s (step s (Settled p r))
               \<or> (suspended (step s (Settled p r)) \<noteq> None
                   \<and> messages (step s (Settled p r)) = messages s
                   \<and> (\<forall>p' r'. turn_over s (step (step s (Settled p r)) (Settled p' r'))))))"
proof -
  have inv: "turn_inv s" using assms by (simp add: turn_inv_reachable)
  then have a: "\<forall>m \<in> set (butlast (messages s)). sender m \<noteq> Loading"
    by (simp add: turn_inv_def)
  then have b: "length (filter (\<lambda>m. sender m = Loading) (messages s)) \<le> 1"
    by (rule filter_butlast_none)
  have c: "(\<exists>m \<in> set (messages s). sender m = Loading) \<longleftrightarrow> suspended s \<noteq> None"
    using inv by (cases "suspended s") (auto simp: turn_inv_def)
  have d: "suspended s \<noteq> None \<longrightarrow>
            (\<forall>p r. turn_over s (step s (Settled p r))
               \<or> (suspended (step s (Settled p r)) \<noteq> None
                   \<and> messages (step s (Settled p r)) = messages s
                   \<and> (\<forall>p' r'. turn_over s (step (step s (Settled p r)) (Settled p' r')))))"
    using resume_progress [of s] by simp
  from a b c d show ?thesis by blast
qed

lemma run_append: "run s (evs @ us) = run (run s evs) us"
  by (simp add: run_def)

theorem pending_record_invariant_witness:
  "length (filter (\<lambda>m. sender m = Loading)
      (messages (run (mounted True) [Change (lit ''hi''), Submit]))) \<le> 1
   \<and> (\<exists>m \<in> set (messages (run (mounted True) [Change (lit ''hi''), Submit])). sender m = Loading)
   \<and> turn_over (run (mounted True) [Change (lit ''hi''), Submit])
        (step (run (mounted True) [Change (lit ''hi''), Submit])
           (Settled Rejected (unit_double_of 0)))"
proof -
  let ?s = "run (mounted True) [Change (lit ''hi''), Submit]"
  let ?s' = "step ?s (Settled Rejected (unit_double_of 0))"
  note inst = pending_record_invariant [OF refl, of True "[Change (lit ''hi''), Submit]"]
  have susp: "suspended ?s \<noteq> None" by (simp add: run_hi)
  have over: "suspended ?s' = None"
    by (simp add: run_hi resume_def on_result_def finish_def)
  from inst have one: "length (filter (\<lambda>m. sender m = Loading) (messages ?s)) \<le> 1"
    by (rule conjunct1)
  from inst susp have pend: "\<exists>m \<in> set (messages ?s). sender m = Loading"
    by blast
  from inst susp have "turn_over ?s ?s' \<or> suspended ?s' \<noteq> None"
    by blast
  with over have "turn_over ?s ?s'" by blast
  with one pend show ?thesis by blast
qed

text \<open>
  C1 as stated fails: while the request of line 85 does not settle, the loading record
  stays the last record, whatever the user does.
\<close>

theorem hung_request_counterexample:
  "sender (last (messages (run (mounted True)
      [Change (lit ''hi''), Submit, Change (lit ''anyone?''), Submit, Submit]))) = Loading
   \<and> \<not> (\<exists>us. list_all user_event us
          \<and> sender (last (messages (run (mounted True) ([Change (lit ''hi''), Submit] @ us))))
              \<noteq> Loading)"
proof -
  let ?s = "run (mounted True) [Change (lit ''hi''), Submit]"
  have busy: "isLoading ?s"
    by (simp add: run_hi)
  have stay: "sender (last (messages (run (mounted True) ([Change (lit ''hi''), Submit] @ us))))
      = Loading" if "list_all user_event us" for us
  proof -
    from user_events_in_flight [OF busy that]
    have "messages (run ?s us) = messages ?s" by blast
    then have "sender (last (messages (run ?s us))) = Loading"
      by (simp add: run_hi)
    then show ?thesis by (simp only: run_append)
  qed
  have "list_all user_event [Change (lit ''anyone?''), Submit, Submit]" by simp
  from stay [OF this] have "sender (last (messages (run (mounted True)
      [Change (lit ''hi''), Submit, Change (lit ''anyone?''), Submit, Submit]))) = Loading"
    by simp
  with stay show ?thesis by blast
qed

section \<open>How a turn ends\<close>

lemma pending_last:
  assumes "turn_inv s" and "suspended s \<noteq> None"
  shows "\<exists>ms l. messages s = ms @ [l] \<and> sender l = Loading"
proof -
  from assms have "messages s \<noteq> []" and "sender (last (messages s)) = Loading"
    by (simp_all add: turn_inv_def)
  then have "messages s = butlast (messages s) @ [last (messages s)]
      \<and> sender (last (messages s)) = Loading" by simp
  then show ?thesis by blast
qed

lemma handleSendMessage_idle:
  assumes "trim (userInput s) \<noteq> []" and "\<not> isLoading s"
  shows "handleSendMessage s =
     (if chatRef s
      then s\<lparr>messages := messages s @ [\<lparr>sender = User, msg_text = Some (userInput s)\<rparr>,
                                        \<lparr>sender = Loading, msg_text = Some (lit ''...'')\<rparr>],
             userInput := [], isLoading := True,
             suspended := Some AwaitSend, calls := calls s @ [SendMessage (userInput s)]\<rparr>
      else s\<lparr>messages := messages s @ [\<lparr>sender = User, msg_text = Some (userInput s)\<rparr>,
                                        errorMessage],
             userInput := [], isLoading := False, suspended := None\<rparr>)"
  using assms by (simp add: handleSendMessage_def try_send_def finish_simps butlast_append)

lemma resume_error:
  assumes "messages s = ms @ [l]" and "suspended s = Some k" and "after_await k p r = Inl e"
  shows "resume p r s = s\<lparr>messages := ms @ [errorMessage], isLoading := False, suspended := None\<rparr>"
  using assms by (simp add: resume_def finish_simps)

lemma after_await_Rejected: "after_await k Rejected r = Inl CallRejected"
  by (cases k) (simp_all add: on_result_def on_tool_result_def)

lemma placeOrder_malformed:
  assumes "fc_args fc = None \<or> (\<exists>a. fc_args fc = Some a \<and> items a = None)"
  shows "placeOrder fc r = Inl TypeError"
  using assms by (auto simp: placeOrder_def)

lemma on_result_placeOrder:
  assumes "functionCalls result = Some (fc # fcs)" and "fc_name fc = Some (lit ''placeOrder'')"
  shows "on_result (Fulfilled result) r = placeOrder fc r"
  using assms by (simp add: on_result_def)

text \<open>
  C2: in a state reached from the mounted component, every error of the \<open>try\<close> block
  ends the turn with the fixed apology: when the chat is not initialised, the submit
  handler appends the user record and the apology and sends nothing; when a suspended
  handler goes on with an error, the loading record is replaced by the apology, no
  request is added, the handler is no longer suspended and the loading flag is cleared,
  and the next submission of non-blank text appends its two records and sends its
  request as usual. A rejected request and a \<open>placeOrder\<close> call without \<open>args\<close> or
  without \<open>items\<close> are such errors.
\<close>

theorem errors_end_turn_with_apology:
  assumes "s = run (mounted ready) evs"
  shows "(trim (userInput s) \<noteq> [] \<and> \<not> isLoading s \<and> \<not> chatRef s \<longrightarrow>
            step s Submit =
              s\<lparr>messages := messages s @
                   [\<lparr>sender = User, msg_text = Some (userInput s)\<rparr>,
                    \<lparr>sender = Bot,
                     msg_text = Some (lit ''Sorry, something went wrong. Please try again.'')\<rparr>],
                userInput := [], isLoading := False, suspended := None\<rparr>)
       \<and> (\<forall>k p r e. suspended s = Some k \<and> after_await k p r = Inl e \<longrightarrow>
            (\<exists>ms l. messages s = ms @ [l] \<and> sender l = Loading \<and>
               step s (Settled p r) =
                 s\<lparr>messages := ms @
                     [\<lparr>sender = Bot,
                       msg_text = Some (lit ''Sorry, something went wrong. Please try again.'')\<rparr>],
                   isLoading := False, suspended := None\<rparr> \<and>
               (\<forall>v. trim v \<noteq> [] \<longrightarrow>
                  step (step (step s (Settled p r)) (Change v)) Submit =
                    s\<lparr>messages := ms @
                        [\<lparr>sender = Bot,
                          msg_text = Some (lit ''Sorry, something went wrong. Please try again.'')\<rparr>,
                         \<lparr>sender = User, msg_text = Some v\<rparr>,
                         \<lparr>sender = Loading, msg_text = Some (lit ''...'')\<rparr>],
                      userInput := [], isLoading := True, suspended := Some AwaitSend,
                      calls := calls s @ [SendMessage v]\<rparr>)))
       \<and> (\<forall>k r. after_await k Rejected r = Inl CallRejected)
       \<and> (\<forall>result fc fcs r.
            functionCalls result = Some (fc # fcs) \<and> fc_name fc = Some (lit ''placeOrder'')
            \<and> (fc_args fc = None \<or> (\<exists>a. fc_args fc = Some a \<and> items a = None)) \<longrightarrow>
            after_await AwaitSend (Fulfilled result) r = Inl TypeError)"
proof -
  have inv: "turn_inv s" using assms by (simp add: turn_inv_reachable)
  have init: "trim (userInput s) \<noteq> [] \<and> \<not> isLoading s \<and> \<not> chatRef s \<longrightarrow>
            step s Submit =
              s\<lparr>messages := messages s @
                   [\<lparr>sender = User, msg_text = Some (userInput s)\<rparr>,
                    \<lparr>sender = Bot,
                     msg_text = Some (lit ''Sorry, something went wrong. Please try again.'')\<rparr>],
                userInput := [], isLoading := False, suspended := None\<rparr>"
    by (simp add: handleSendMessage_idle errorMessage_def)
  have settle: "\<exists>ms l. messages s = ms @ [l] \<and> sender l = Loading \<and>
               step s (Settled p r) =
                 s\<lparr>messages := ms @
                     [\<lparr>sender = Bot,
                       msg_text = Some (lit ''Sorry, something went wrong. Please try again.'')\<rparr>],
                   isLoading := False, suspended := None\<rparr> \<and>
               (\<forall>v. trim v \<noteq> [] \<longrightarrow>
                  step (step (step s (Settled p r)) (Change v)) Submit =
                    s\<lparr>messages := ms @
                        [\<lparr>sender = Bot,
                          msg_text = Some (lit ''Sorry, something went wrong. Please try again.'')\<rparr>,
                         \<lparr>sender = User, msg_text = Some v\<rparr>,
                         \<lparr>sender = Loading, msg_text = Some (lit ''...'')\<rparr>],
                      userInput := [], isLoading := True, suspended := Some AwaitSend,
                      calls := calls s @ [SendMessage v]\<rparr>)"
    if k: "suspended s = Some k" and e: "after_await k p r = Inl e" for k p r e
  proof -
    from inv k obtain ms l where ms: "messages s = ms @ [l]" and l: "sender l = Loading"
      using pending_last [of s] by auto
    from inv k have chat: "chatRef s" by (simp add: turn_inv_def)
    have f: "resume p r s =
        s\<lparr>messages := ms @ [errorMessage], isLoading := False, suspended := None\<rparr>"
      by (rule resume_error [OF ms k e])
    have "step (step (step s (Settled p r)) (Change v)) Submit =
        s\<lparr>messages := ms @ [errorMessage, \<lparr>sender = User, msg_text = Some v\<rparr>,
                             \<lparr>sender = Loading, msg_text = Some (lit ''...'')\<rparr>],
          userInput := [], isLoading := True, suspended := Some AwaitSend,
          calls := calls s @ [SendMessage v]\<rparr>" if "trim v \<noteq> []" for v
      using that chat by (simp add: f handleSendMessage_idle)
    with ms l f show ?thesis by (simp add: errorMessage_def)
  qed
  have malformed: "after_await AwaitSend (Fulfilled result) r = Inl TypeError"
    if "functionCalls result = Some (fc # fcs)" and "fc_name fc = Some (lit ''placeOrder'')"
      and "fc_args fc = None \<or> (\<exists>a. fc_args fc = Some a \<and> items a = None)"
    for result fc fcs r
    using that by (simp add: on_result_placeOrder placeOrder_malformed)
  from init settle malformed show ?thesis
    by (intro conjI allI impI) (blast intro: after_await_Rejected)+
qed

lemma resume_reply:
  assumes "messages s = ms @ [l]" and "suspended s = Some k"
    and "after_await k p r = Inr (Reply t)"
  shows "resume p r s =
    s\<lparr>messages := ms @ [\<lparr>sender = Bot, msg_text = t\<rparr>], isLoading := False, suspended := None\<rparr>"
  using assms by (simp add: resume_def finish_simps)

lemma resume_call:
  assumes "suspended s = Some k" and "after_await k p r = Inr (Call c k')"
  shows "resume p r s = s\<lparr>calls := calls s @ [c], suspended := Some k'\<rparr>"
  using assms by (simp add: resume_def finish_simps)

lemma on_result_plain:
  assumes "functionCalls result = None \<or> functionCalls result = Some []"
  shows "on_result (Fulfilled result) r = Inr (Reply (res_text result))"
  using assms by (auto simp: on_result_def)

lemma on_result_other:
  assumes "functionCalls result = Some (fc # fcs)" and "fc_name fc \<noteq> Some (lit ''placeOrder'')"
  shows "on_result (Fulfilled result) r = Inr (Reply (Some []))"
  using assms by (simp add: on_result_def)

lemma on_result_first_only:
  assumes "functionCalls result = Some (fc # fcs)"
  shows "on_result (Fulfilled result) r
       = on_result (Fulfilled \<lparr>functionCalls = Some [fc], res_text = t\<rparr>) r"
  using assms by (simp add: on_result_def)

lemma placeOrder_items:
  assumes "fc_args fc = Some a" and "items a = Some its"
  shows "placeOrder fc r =
     Inr (Call (SendToolResponse \<lparr>fr_id = fc_id fc, fr_name = fc_name fc,
                                  fr_result = toolResult (orderNumber r)\<rparr>)
               (AwaitToolResponse (confirmationMessage its (orderNumber r))))"
  using assms by (simp add: placeOrder_def)

text \<open>
  C7: when the first request is fulfilled by a response without function calls, the
  handler replies with the text of the response: the loading record is replaced by one
  bot record holding that text, and no request is added (no tool invocation, no tool
  response).
\<close>

theorem plain_text_reply:
  assumes "s = run (mounted ready) evs" and "suspended s = Some AwaitSend"
    and "functionCalls result = None \<or> functionCalls result = Some []"
  shows "on_result (Fulfilled result) r = Inr (Reply (res_text result))
       \<and> (\<exists>ms l. messages s = ms @ [l] \<and> sender l = Loading \<and>
            step s (Settled (Fulfilled result) r) =
              s\<lparr>messages := ms @ [\<lparr>sender = Bot, msg_text = res_text result\<rparr>],
                isLoading := False, suspended := None\<rparr>)"
proof -
  have "turn_inv s" using assms(1) by (simp add: turn_inv_reachable)
  with assms(2) obtain ms l where ms: "messages s = ms @ [l]" and l: "sender l = Loading"
    using pending_last [of s] by auto
  have out: "after_await AwaitSend (Fulfilled result) r = Inr (Reply (res_text result))"
    using assms(3) by (simp add: on_result_plain)
  from resume_reply [OF ms assms(2) out] ms l out show ?thesis by simp
qed

text \<open>
  C10: when the first function call of the response is not named \<open>placeOrder\<close>, the
  \<open>try\<close> block ends without an error and with the empty text: the loading record is
  replaced by a bot record with the empty string and no request is added. In every
  case only the first function call counts: the further ones, and the text of the
  response, change nothing.
\<close>

theorem other_function_call_ignored:
  assumes "s = run (mounted ready) evs" and "suspended s = Some AwaitSend"
    and "functionCalls result = Some (fc # fcs)"
  shows "(fc_name fc \<noteq> Some (lit ''placeOrder'') \<longrightarrow>
            on_result (Fulfilled result) r = Inr (Reply (Some [])) \<and>
            (\<exists>ms l. messages s = ms @ [l] \<and> sender l = Loading \<and>
               step s (Settled (Fulfilled result) r) =
                 s\<lparr>messages := ms @ [\<lparr>sender = Bot, msg_text = Some []\<rparr>],
                   isLoading := False, suspended := None\<rparr>))
       \<and> (\<forall>t. step s (Settled (Fulfilled result) r)
              = step s (Settled (Fulfilled \<lparr>functionCalls = Some [fc], res_text = t\<rparr>) r))"
proof -
  have "turn_inv s" using assms(1) by (simp add: turn_inv_reachable)
  with assms(2) obtain ms l where ms: "messages s = ms @ [l]" and l: "sender l = Loading"
    using pending_last [of s] by auto
  have first: "step s (Settled (Fulfilled result) r)
      = step s (Settled (Fulfilled \<lparr>functionCalls = Some [fc], res_text = t\<rparr>) r)" for t
    using assms(2) on_result_first_only [OF assms(3), of r t] by (simp add: resume_def)
  have other: "on_result (Fulfilled result) r = Inr (Reply (Some [])) \<and>
            (\<exists>ms l. messages s = ms @ [l] \<and> sender l = Loading \<and>
               step s (Settled (Fulfilled result) r) =
                 s\<lparr>messages := ms @ [\<lparr>sender = Bot, msg_text = Some []\<rparr>],
                   isLoading := False, suspended := None\<rparr>)"
    if name: "fc_name fc \<noteq> Some (lit ''placeOrder'')"
  proof -
    have out: "after_await AwaitSend (Fulfilled result) r = Inr (Reply (Some []))"
      using assms(3) name by (simp add: on_result_other)
    from resume_reply [OF ms assms(2) out] ms l out show ?thesis by simp
  qed
  from first other show ?thesis by blast
qed


lemma orderNumber_zero: "orderNumber (unit_double_of 0) = 0"
  by (simp add: orderNumber_def unit_double_of.rep_eq fl_def Math_floor_def)

lemma Number_toString_zero: "Number_toString 0 = lit ''0''"
  by (simp add: Number_toString_def digits.simps [of 0] lit_def)

theorem plain_text_reply_witness:
  "step (run (mounted True) [Change (lit ''hi''), Submit])
     (Settled (Fulfilled \<lparr>functionCalls = None, res_text = Some (lit ''We have pizza.'')\<rparr>)
        (unit_double_of 0))
   = \<lparr>messages = [welcomeMessage, \<lparr>sender = User, msg_text = Some (lit ''hi'')\<rparr>,
                  \<lparr>sender = Bot, msg_text = Some (lit ''We have pizza.'')\<rparr>],
      userInput = [], isLoading = False, chatRef = True, suspended = None,
      calls = [SendMessage (lit ''hi'')]\<rparr>"
proof -
  let ?s = "run (mounted True) [Change (lit ''hi''), Submit]"
  let ?res = "\<lparr>functionCalls = None, res_text = Some (lit ''We have pizza.'')\<rparr>"
  have a: "suspended ?s = Some AwaitSend" by (simp add: run_hi)
  have b: "functionCalls ?res = None \<or> functionCalls ?res = Some []" by simp
  from plain_text_reply [OF refl a b, of "unit_double_of 0"]
  obtain ms l where ms: "messages ?s = ms @ [l]"
    and st: "step ?s (Settled (Fulfilled ?res) (unit_double_of 0)) =
      ?s\<lparr>messages := ms @ [\<lparr>sender = Bot, msg_text = res_text ?res\<rparr>],
         isLoading := False, suspended := None\<rparr>"
    by blast
  from ms have "ms = [welcomeMessage, \<lparr>sender = User, msg_text = Some (lit ''hi'')\<rparr>]"
    by (simp add: run_hi)
  with st show ?thesis by (simp add: run_hi)
qed

theorem other_function_call_ignored_witness:
  "step (run (mounted True) [Change (lit ''hi''), Submit])
     (Settled (Fulfilled
        \<lparr>functionCalls = Some [\<lparr>fc_id = Some (lit ''c1''), fc_name = Some (lit ''getMenu''),
                                 fc_args = None\<rparr>,
                                \<lparr>fc_id = Some (lit ''c2''), fc_name = Some (lit ''placeOrder''),
                                 fc_args = None\<rparr>],
         res_text = Some (lit ''One moment.'')\<rparr>)
        (unit_double_of 0))
   = \<lparr>messages = [welcomeMessage, \<lparr>sender = User, msg_text = Some (lit ''hi'')\<rparr>,
                  \<lparr>sender = Bot, msg_text = Some []\<rparr>],
      userInput = [], isLoading = False, chatRef = True, suspended = None,
      calls = [SendMessage (lit ''hi'')]\<rparr>"
proof -
  let ?s = "run (mounted True) [Change (lit ''hi''), Submit]"
  let ?fc = "\<lparr>fc_id = Some (lit ''c1''), fc_name = Some (lit ''getMenu''), fc_args = None\<rparr>"
  let ?fcs = "[\<lparr>fc_id = Some (lit ''c2''), fc_name = Some (lit ''placeOrder''),
                fc_args = None\<rparr>]"
  let ?res = "\<lparr>functionCalls = Some (?fc # ?fcs), res_text = Some (lit ''One moment.'')\<rparr>"
  have a: "suspended ?s = Some AwaitSend" by (simp add: run_hi)
  have b: "functionCalls ?res = Some (?fc # ?fcs)" by simp
  have c: "fc_name ?fc \<noteq> Some (lit ''placeOrder'')" by (simp add: lit_def)
  from other_function_call_ignored [OF refl a b, of "unit_double_of 0"] c
  obtain ms l where ms: "messages ?s = ms @ [l]"
    and st: "step ?s (Settled (Fulfilled ?res) (unit_double_of 0)) =
      ?s\<lparr>messages := ms @ [\<lparr>sender = Bot, msg_text = Some []\<rparr>],
         isLoading := False, suspended := None\<rparr>"
    by blast
  from ms have "ms = [welcomeMessage, \<lparr>sender = User, msg_text = Some (lit ''hi'')\<rparr>]"
    by (simp add: run_hi)
  with st show ?thesis by (simp add: run_hi)
qed


theorem errors_end_turn_with_apology_witness:
  "step (run (mounted True) [Change (lit ''hi''), Submit]) (Settled Rejected (unit_double_of 0))
   = \<lparr>messages = [welcomeMessage, \<lparr>sender = User, msg_text = Some (lit ''hi'')\<rparr>,
                  \<lparr>sender = Bot,
                   msg_text = Some (lit ''Sorry, something went wrong. Please try again.'')\<rparr>],
      userInput = [], isLoading = False, chatRef = True, suspended = None,
      calls = [SendMessage (lit ''hi'')]\<rparr>
   \<and> step (run (mounted False) [Change (lit ''hi'')]) Submit
   = \<lparr>messages = [\<lparr>sender = User, msg_text = Some (lit ''hi'')\<rparr>,
                  \<lparr>sender = Bot,
                   msg_text = Some (lit ''Sorry, something went wrong. Please try again.'')\<rparr>],
      userInput = [], isLoading = False, chatRef = False, suspended = None, calls = []\<rparr>"
proof -
  let ?s = "run (mounted True) [Change (lit ''hi''), Submit]"
  let ?u = "run (mounted False) [Change (lit ''hi'')]"
  note on = errors_end_turn_with_apology [OF refl, of True "[Change (lit ''hi''), Submit]"]
  note off = errors_end_turn_with_apology [OF refl, of False "[Change (lit ''hi'')]"]
  have a: "suspended ?s = Some AwaitSend" by (simp add: run_hi)
  from on have b: "after_await AwaitSend Rejected (unit_double_of 0) = Inl CallRejected"
    by blast
  from on a b obtain ms l where ms: "messages ?s = ms @ [l]"
    and st: "step ?s (Settled Rejected (unit_double_of 0)) =
      ?s\<lparr>messages := ms @
            [\<lparr>sender = Bot,
              msg_text = Some (lit ''Sorry, something went wrong. Please try again.'')\<rparr>],
         isLoading := False, suspended := None\<rparr>"
    by blast
  from ms have "ms = [welcomeMessage, \<lparr>sender = User, msg_text = Some (lit ''hi'')\<rparr>]"
    by (simp add: run_hi)
  with st have first: "step ?s (Settled Rejected (unit_double_of 0))
   = \<lparr>messages = [welcomeMessage, \<lparr>sender = User, msg_text = Some (lit ''hi'')\<rparr>,
                  \<lparr>sender = Bot,
                   msg_text = Some (lit ''Sorry, something went wrong. Please try again.'')\<rparr>],
      userInput = [], isLoading = False, chatRef = True, suspended = None,
      calls = [SendMessage (lit ''hi'')]\<rparr>"
    by (simp add: run_hi)
  have u: "?u = \<lparr>messages = [], userInput = lit ''hi'', isLoading = False, chatRef = False,
      suspended = None, calls = []\<rparr>"
    by (simp add: run_def mounted_def)
  have "trim (userInput ?u) \<noteq> [] \<and> \<not> isLoading ?u \<and> \<not> chatRef ?u"
    unfolding u by (simp add: trim_def isWhiteSpace_def lit_def)
  with off have "step ?u Submit =
      ?u\<lparr>messages := messages ?u @
           [\<lparr>sender = User, msg_text = Some (userInput ?u)\<rparr>,
            \<lparr>sender = Bot,
             msg_text = Some (lit ''Sorry, something went wrong. Please try again.'')\<rparr>],
         userInput := [], isLoading := False, suspended := None\<rparr>"
    by blast
  then have second: "step ?u Submit
   = \<lparr>messages = [\<lparr>sender = User, msg_text = Some (lit ''hi'')\<rparr>,
                  \<lparr>sender = Bot,
                   msg_text = Some (lit ''Sorry, something went wrong. Please try again.'')\<rparr>],
      userInput = [], isLoading = False, chatRef = False, suspended = None, calls = []\<rparr>"
    by (simp add: u)
  from first second show ?thesis by (rule conjI)
qed

lemma after_await_tool_response_no_call:
  "after_await (AwaitToolResponse c) p r \<noteq> Inr (Call x k)"
  by simp

lemma resume_tool_response_calls:
  assumes "suspended s = Some (AwaitToolResponse c)"
  shows "calls (resume p r s) = calls s \<and> suspended (resume p r s) = None"
proof (cases "after_await (AwaitToolResponse c) p r")
  case (Inl e)
  with assms show ?thesis by (simp add: resume_def finish_simps)
next
  case (Inr out)
  with after_await_tool_response_no_call [of c p r] obtain t where "out = Reply t"
    by (cases out) auto
  with Inr assms show ?thesis by (simp add: resume_def finish_simps)
qed

lemma on_result_Call_only_placeOrder:
  assumes "on_result p r = Inr (Call x k)"
  shows "\<exists>result fc fcs a its. p = Fulfilled result \<and> functionCalls result = Some (fc # fcs)
      \<and> fc_name fc = Some (lit ''placeOrder'') \<and> fc_args fc = Some a \<and> items a = Some its"
proof (cases p)
  case Rejected
  with assms show ?thesis by (simp add: on_result_def)
next
  case (Fulfilled result)
  show ?thesis
  proof (cases "functionCalls result")
    case None
    with assms Fulfilled show ?thesis by (simp add: on_result_def)
  next
    case (Some calls)
    show ?thesis
    proof (cases calls)
      case Nil
      with assms Fulfilled Some show ?thesis by (simp add: on_result_def)
    next
      case (Cons fc fcs)
      with assms Fulfilled Some have name: "fc_name fc = Some (lit ''placeOrder'')"
        and po: "placeOrder fc r = Inr (Call x k)"
        by (simp_all add: on_result_def split: if_splits)
      from po obtain a its where "fc_args fc = Some a" and "items a = Some its"
        by (auto simp: placeOrder_def split: option.splits)
      with Fulfilled Some Cons name show ?thesis by blast
    qed
  qed
qed

lemma resume_no_call:
  assumes "suspended s = Some AwaitSend"
    and "\<not> (\<exists>result fc fcs a its. p = Fulfilled result \<and> functionCalls result = Some (fc # fcs)
      \<and> fc_name fc = Some (lit ''placeOrder'') \<and> fc_args fc = Some a \<and> items a = Some its)"
  shows "calls (resume p r s) = calls s \<and> suspended (resume p r s) = None"
proof (cases "on_result p r")
  case (Inl e)
  with assms(1) show ?thesis by (simp add: resume_def finish_simps)
next
  case (Inr out)
  show ?thesis
  proof (cases out)
    case (Reply t)
    with Inr assms(1) show ?thesis by (simp add: resume_def finish_simps)
  next
    case (Call x k)
    with Inr have "on_result p r = Inr (Call x k)" by simp
    from on_result_Call_only_placeOrder [OF this] assms(2) show ?thesis by blast
  qed
qed

text \<open>
  C9, as amended: when the first request is fulfilled with a first function call named
  \<open>placeOrder\<close> that carries an \<open>items\<close> list, exactly one tool response is sent in the
  turn, and it carries the \<open>id\<close> and the \<open>name\<close> of that function call; however the
  first request settles otherwise, the turn ends there and no tool response is sent.
\<close>

theorem tool_response_once_with_id:
  assumes "s = run (mounted ready) evs" and "suspended s = Some AwaitSend"
  shows "(\<forall>result fc fcs a its r.
            functionCalls result = Some (fc # fcs) \<and> fc_name fc = Some (lit ''placeOrder'')
            \<and> fc_args fc = Some a \<and> items a = Some its \<longrightarrow>
            (\<exists>fr c. step s (Settled (Fulfilled result) r) =
                      s\<lparr>calls := calls s @ [SendToolResponse fr],
                        suspended := Some (AwaitToolResponse c)\<rparr>
                 \<and> fr_id fr = fc_id fc \<and> fr_name fr = fc_name fc
                 \<and> (\<forall>p' r'.
                       calls (step (step s (Settled (Fulfilled result) r)) (Settled p' r'))
                         = calls s @ [SendToolResponse fr]
                       \<and> suspended (step (step s (Settled (Fulfilled result) r)) (Settled p' r'))
                         = None)))
       \<and> (\<forall>p r.
            \<not> (\<exists>result fc fcs a its. p = Fulfilled result
                  \<and> functionCalls result = Some (fc # fcs)
                  \<and> fc_name fc = Some (lit ''placeOrder'')
                  \<and> fc_args fc = Some a \<and> items a = Some its) \<longrightarrow>
            calls (step s (Settled p r)) = calls s \<and> suspended (step s (Settled p r)) = None)"
proof -
  have once: "\<exists>fr c. step s (Settled (Fulfilled result) r) =
                      s\<lparr>calls := calls s @ [SendToolResponse fr],
                        suspended := Some (AwaitToolResponse c)\<rparr>
                 \<and> fr_id fr = fc_id fc \<and> fr_name fr = fc_name fc
                 \<and> (\<forall>p' r'.
                       calls (step (step s (Settled (Fulfilled result) r)) (Settled p' r'))
                         = calls s @ [SendToolResponse fr]
                       \<and> suspended (step (step s (Settled (Fulfilled result) r)) (Settled p' r'))
                         = None)"
    if fcs: "functionCalls result = Some (fc # fcs)"
      and name: "fc_name fc = Some (lit ''placeOrder'')"
      and args: "fc_args fc = Some a" and its: "items a = Some its"
    for result fc fcs a its r
  proof -
    let ?fr = "\<lparr>fr_id = fc_id fc, fr_name = fc_name fc, fr_result = toolResult (orderNumber r)\<rparr>"
    let ?c = "confirmationMessage its (orderNumber r)"
    let ?s1 = "s\<lparr>calls := calls s @ [SendToolResponse ?fr],
                  suspended := Some (AwaitToolResponse ?c)\<rparr>"
    have "after_await AwaitSend (Fulfilled result) r
        = Inr (Call (SendToolResponse ?fr) (AwaitToolResponse ?c))"
      using fcs name args its by (simp add: on_result_placeOrder placeOrder_items)
    from resume_call [OF assms(2) this]
    have s1: "step s (Settled (Fulfilled result) r) = ?s1" by simp
    have "suspended ?s1 = Some (AwaitToolResponse ?c)" by simp
    from resume_tool_response_calls [OF this]
    have "calls (step ?s1 (Settled p' r')) = calls s @ [SendToolResponse ?fr]
        \<and> suspended (step ?s1 (Settled p' r')) = None" for p' r'
      by simp
    with s1 have "step s (Settled (Fulfilled result) r) = ?s1
        \<and> fr_id ?fr = fc_id fc \<and> fr_name ?fr = fc_name fc
        \<and> (\<forall>p' r'.
              calls (step (step s (Settled (Fulfilled result) r)) (Settled p' r'))
                = calls s @ [SendToolResponse ?fr]
              \<and> suspended (step (step s (Settled (Fulfilled result) r)) (Settled p' r'))
                = None)"
      by simp
    then show ?thesis by blast
  qed
  have none: "calls (step s (Settled p r)) = calls s \<and> suspended (step s (Settled p r)) = None"
    if "\<not> (\<exists>result fc fcs a its. p = Fulfilled result
                  \<and> functionCalls result = Some (fc # fcs)
                  \<and> fc_name fc = Some (lit ''placeOrder'')
                  \<and> fc_args fc = Some a \<and> items a = Some its)" for p r
    using resume_no_call [OF assms(2) that] by simp
  from once none show ?thesis by blast
qed

theorem tool_response_once_with_id_witness:
  "\<exists>fr c. step (run (mounted True) [Change (lit ''hi''), Submit])
       (Settled (Fulfilled
          \<lparr>functionCalls = Some [\<lparr>fc_id = Some (lit ''c1''), fc_name = Some (lit ''placeOrder''),
              fc_args = Some \<lparr>items = Some [lit ''Pizza'', lit ''Coke'']\<rparr>\<rparr>],
           res_text = None\<rparr>) (unit_double_of 0))
     = \<lparr>messages = [welcomeMessage, \<lparr>sender = User, msg_text = Some (lit ''hi'')\<rparr>,
                    \<lparr>sender = Loading, msg_text = Some (lit ''...'')\<rparr>],
        userInput = [], isLoading = True, chatRef = True,
        suspended = Some (AwaitToolResponse c),
        calls = [SendMessage (lit ''hi''), SendToolResponse fr]\<rparr>
     \<and> fr_id fr = Some (lit ''c1'')"
proof -
  let ?s = "run (mounted True) [Change (lit ''hi''), Submit]"
  let ?fc = "\<lparr>fc_id = Some (lit ''c1''), fc_name = Some (lit ''placeOrder''),
              fc_args = Some \<lparr>items = Some [lit ''Pizza'', lit ''Coke'']\<rparr>\<rparr>"
  let ?res = "\<lparr>functionCalls = Some [?fc], res_text = None\<rparr>"
  have a: "suspended ?s = Some AwaitSend" by (simp add: run_hi)
  have b: "functionCalls ?res = Some (?fc # []) \<and> fc_name ?fc = Some (lit ''placeOrder'')
      \<and> fc_args ?fc = Some \<lparr>items = Some [lit ''Pizza'', lit ''Coke'']\<rparr>
      \<and> items \<lparr>items = Some [lit ''Pizza'', lit ''Coke'']\<rparr> = Some [lit ''Pizza'', lit ''Coke'']"
    by simp
  from tool_response_once_with_id [OF refl a] b
  obtain fr c where st: "step ?s (Settled (Fulfilled ?res) (unit_double_of 0)) =
      ?s\<lparr>calls := calls ?s @ [SendToolResponse fr], suspended := Some (AwaitToolResponse c)\<rparr>"
    and fr: "fr_id fr = fc_id ?fc"
    by blast
  from st have "step ?s (Settled (Fulfilled ?res) (unit_double_of 0))
     = \<lparr>messages = [welcomeMessage, \<lparr>sender = User, msg_text = Some (lit ''hi'')\<rparr>,
                    \<lparr>sender = Loading, msg_text = Some (lit ''...'')\<rparr>],
        userInput = [], isLoading = True, chatRef = True,
        suspended = Some (AwaitToolResponse c),
        calls = [SendMessage (lit ''hi''), SendToolResponse fr]\<rparr>"
    by (simp add: run_hi)
  moreover from fr have "fr_id fr = Some (lit ''c1'')" by simp
  ultimately show ?thesis by blast
qed

text \<open>
  C9 as stated fails: a response whose function call is not \<open>placeOrder\<close>, or is a
  \<open>placeOrder\<close> without \<open>args\<close>, ends the turn with no tool response sent.
\<close>

theorem no_tool_response_counterexample:
  "step (run (mounted True) [Change (lit ''hi''), Submit])
     (Settled (Fulfilled
        \<lparr>functionCalls = Some [\<lparr>fc_id = Some (lit ''c1''), fc_name = Some (lit ''getMenu''),
                                 fc_args = None\<rparr>],
         res_text = None\<rparr>) (unit_double_of 0))
   = \<lparr>messages = [welcomeMessage, \<lparr>sender = User, msg_text = Some (lit ''hi'')\<rparr>,
                  \<lparr>sender = Bot, msg_text = Some []\<rparr>],
      userInput = [], isLoading = False, chatRef = True, suspended = None,
      calls = [SendMessage (lit ''hi'')]\<rparr>
   \<and> step (run (mounted True) [Change (lit ''hi''), Submit])
     (Settled (Fulfilled
        \<lparr>functionCalls = Some [\<lparr>fc_id = Some (lit ''c1''), fc_name = Some (lit ''placeOrder''),
                                 fc_args = None\<rparr>],
         res_text = None\<rparr>) (unit_double_of 0))
   = \<lparr>messages = [welcomeMessage, \<lparr>sender = User, msg_text = Some (lit ''hi'')\<rparr>,
                  \<lparr>sender = Bot,
                   msg_text = Some (lit ''Sorry, something went wrong. Please try again.'')\<rparr>],
      userInput = [], isLoading = False, chatRef = True, suspended = None,
      calls = [SendMessage (lit ''hi'')]\<rparr>"
proof -
  have ne: "lit ''getMenu'' \<noteq> lit ''placeOrder''" by (simp add: lit_def)
  show ?thesis
    unfolding run_hi
    by (simp add: ne resume_def on_result_def placeOrder_def finish_def replace_last_def
        errorMessage_def)
qed

section \<open>The order confirmation\<close>

lemma sublist_join:
  assumes "x \<in> set its"
  shows "sublist x (join sep its)"
  using assms
proof (induction sep its rule: join.induct)
  case (1 sep)
  then show ?case by simp
next
  case (2 sep y)
  then show ?case by simp
next
  case (3 sep y z zs)
  show ?case
  proof (cases "x = y")
    case True
    then show ?thesis by simp
  next
    case False
    with "3.prems" have "x \<in> set (z # zs)" by simp
    then have "sublist x (join sep (z # zs))" by (rule "3.IH")
    then obtain ps ss where "join sep (z # zs) = ps @ x @ ss"
      by (auto simp: sublist_def)
    then have "join sep (y # z # zs) = (y @ sep @ ps) @ x @ ss" by simp
    then show ?thesis unfolding sublist_def by blast
  qed
qed

lemma confirmationMessage_items:
  assumes "x \<in> set its"
  shows "sublist x (confirmationMessage its n)"
proof -
  from sublist_join [OF assms, of "lit '', ''"] obtain ps ss
    where "join (lit '', '') its = ps @ x @ ss" by (auto simp: sublist_def)
  then have "confirmationMessage its n
      = (lit ''Great! I've placed an order for: '' @ ps) @ x
        @ (ss @ lit ''. Your order number is #'' @ Number_toString n
           @ lit ''. Is there anything else?'')"
    by (simp add: confirmationMessage_def)
  then show ?thesis unfolding sublist_def by blast
qed

lemma confirmationMessage_number:
  "sublist (Number_toString n) (confirmationMessage its n)"
proof -
  have "confirmationMessage its n
      = (lit ''Great! I've placed an order for: '' @ join (lit '', '') its
         @ lit ''. Your order number is #'') @ Number_toString n
        @ lit ''. Is there anything else?''"
    by (simp add: confirmationMessage_def)
  then show ?thesis unfolding sublist_def by blast
qed

lemma toolResult_number: "sublist (Number_toString n) (toolResult n)"
  by (simp add: toolResult_def)

lemma confirmationMessage_nonempty: "confirmationMessage its n \<noteq> []"
  by (simp add: confirmationMessage_def lit_def)

text \<open>Line 105 taken alone, on a reply that the handler never gets.\<close>

lemma on_tool_result_text:
  assumes "res_text reply = Some t" and "t \<noteq> []"
  shows "on_tool_result c (Fulfilled reply) = Inr (Reply (Some t))"
  using assms by (simp add: on_tool_result_def)

lemma on_tool_result_fallback:
  assumes "res_text reply = None \<or> res_text reply = Some []"
  shows "on_tool_result c (Fulfilled reply) = Inr (Reply (Some c))"
  using assms by (auto simp: on_tool_result_def)

text \<open>
  C6 does not hold on the code: when the first request is fulfilled with a first
  function call named \<open>placeOrder\<close> that carries an \<open>items\<close> list, the tool response
  with the order number is sent and the handler holds the confirmation of line 93, but
  the request of lines 96 to 104 passes no \<open>message\<close>, so its promise is rejected.
  Whatever the service would answer, the loading record is replaced by the apology,
  which is neither the text of the reply nor the confirmation.
\<close>

theorem placeOrder_turn_ends_with_apology:
  assumes "s = run (mounted ready) evs" and "suspended s = Some AwaitSend"
    and "functionCalls result = Some (fc # fcs)"
    and "fc_name fc = Some (lit ''placeOrder'')"
    and "fc_args fc = Some a" and "items a = Some its"
  shows "\<exists>ms l s1. messages s = ms @ [l] \<and> sender l = Loading
       \<and> step s (Settled (Fulfilled result) r) = s1
       \<and> s1 = s\<lparr>calls := calls s @
                   [SendToolResponse \<lparr>fr_id = fc_id fc, fr_name = fc_name fc,
                                       fr_result = toolResult (orderNumber r)\<rparr>],
                 suspended := Some (AwaitToolResponse (confirmationMessage its (orderNumber r)))\<rparr>
       \<and> (\<forall>p r'. step s1 (Settled p r') =
              s1\<lparr>messages := ms @
                   [\<lparr>sender = Bot,
                     msg_text = Some (lit ''Sorry, something went wrong. Please try again.'')\<rparr>],
                 isLoading := False, suspended := None\<rparr>)
       \<and> confirmationMessage its (orderNumber r)
           \<noteq> lit ''Sorry, something went wrong. Please try again.''"
proof -
  let ?c = "confirmationMessage its (orderNumber r)"
  let ?s1 = "s\<lparr>calls := calls s @
                   [SendToolResponse \<lparr>fr_id = fc_id fc, fr_name = fc_name fc,
                                       fr_result = toolResult (orderNumber r)\<rparr>],
                 suspended := Some (AwaitToolResponse ?c)\<rparr>"
  have "turn_inv s" using assms(1) by (simp add: turn_inv_reachable)
  with assms(2) obtain ms l where ms: "messages s = ms @ [l]" and l: "sender l = Loading"
    using pending_last [of s] by auto
  have "after_await AwaitSend (Fulfilled result) r =
      Inr (Call (SendToolResponse \<lparr>fr_id = fc_id fc, fr_name = fc_name fc,
                                   fr_result = toolResult (orderNumber r)\<rparr>)
                (AwaitToolResponse ?c))"
    using assms(3-6) by (simp add: on_result_placeOrder placeOrder_items)
  from resume_call [OF assms(2) this]
  have s1: "step s (Settled (Fulfilled result) r) = ?s1" by simp
  have ms1: "messages ?s1 = ms @ [l]" and k1: "suspended ?s1 = Some (AwaitToolResponse ?c)"
    using ms by simp_all
  have "resume p r' ?s1 =
      ?s1\<lparr>messages := ms @ [errorMessage], isLoading := False, suspended := None\<rparr>" for p r'
    by (rule resume_error [OF ms1 k1]) simp
  then have rejected: "\<forall>p r'. step ?s1 (Settled p r') =
              ?s1\<lparr>messages := ms @
                   [\<lparr>sender = Bot,
                     msg_text = Some (lit ''Sorry, something went wrong. Please try again.'')\<rparr>],
                 isLoading := False, suspended := None\<rparr>"
    by (simp add: errorMessage_def)
  have differ: "?c \<noteq> lit ''Sorry, something went wrong. Please try again.''"
    by (simp add: confirmationMessage_def lit_def)
  from ms l s1 rejected differ show ?thesis by blast
qed

theorem placeOrder_turn_ends_with_apology_witness:
  "run (mounted True)
     [Change (lit ''hi''), Submit,
      Settled (Fulfilled
        \<lparr>functionCalls = Some [\<lparr>fc_id = Some (lit ''c1''), fc_name = Some (lit ''placeOrder''),
            fc_args = Some \<lparr>items = Some [lit ''Pizza'', lit ''Coke'']\<rparr>\<rparr>],
         res_text = None\<rparr>) (unit_double_of 0),
      Settled (Fulfilled \<lparr>functionCalls = None, res_text = Some (lit ''Your order is placed.'')\<rparr>)
        (unit_double_of 0)]
   = \<lparr>messages = [welcomeMessage, \<lparr>sender = User, msg_text = Some (lit ''hi'')\<rparr>,
                  \<lparr>sender = Bot,
                   msg_text = Some (lit ''Sorry, something went wrong. Please try again.'')\<rparr>],
      userInput = [], isLoading = False, chatRef = True, suspended = None,
      calls = [SendMessage (lit ''hi''),
               SendToolResponse \<lparr>fr_id = Some (lit ''c1''), fr_name = Some (lit ''placeOrder''),
                                  fr_result = lit ''Order placed successfully. Order number: 0''\<rparr>]\<rparr>"
proof -
  let ?s = "run (mounted True) [Change (lit ''hi''), Submit]"
  let ?a = "\<lparr>items = Some [lit ''Pizza'', lit ''Coke'']\<rparr>"
  let ?fc = "\<lparr>fc_id = Some (lit ''c1''), fc_name = Some (lit ''placeOrder''), fc_args = Some ?a\<rparr>"
  let ?res = "\<lparr>functionCalls = Some [?fc], res_text = None\<rparr>"
  let ?reply = "\<lparr>functionCalls = None, res_text = Some (lit ''Your order is placed.'')\<rparr>"
  let ?c = "confirmationMessage [lit ''Pizza'', lit ''Coke''] (orderNumber (unit_double_of 0))"
  have a: "suspended ?s = Some AwaitSend" by (simp add: run_hi)
  have b: "functionCalls ?res = Some (?fc # [])" and c: "fc_name ?fc = Some (lit ''placeOrder'')"
    and d: "fc_args ?fc = Some ?a" and e: "items ?a = Some [lit ''Pizza'', lit ''Coke'']"
    by simp_all
  from placeOrder_turn_ends_with_apology [OF refl a b c d e, of "unit_double_of 0"]
  obtain ms l s1 where ms: "messages ?s = ms @ [l]"
    and s1: "step ?s (Settled (Fulfilled ?res) (unit_double_of 0)) = s1"
    and s1_eq: "s1 = ?s\<lparr>calls := calls ?s @
                   [SendToolResponse \<lparr>fr_id = fc_id ?fc, fr_name = fc_name ?fc,
                       fr_result = toolResult (orderNumber (unit_double_of 0))\<rparr>],
                 suspended := Some (AwaitToolResponse ?c)\<rparr>"
    and s2: "step s1 (Settled (Fulfilled ?reply) (unit_double_of 0)) =
              s1\<lparr>messages := ms @
                   [\<lparr>sender = Bot,
                     msg_text = Some (lit ''Sorry, something went wrong. Please try again.'')\<rparr>],
                 isLoading := False, suspended := None\<rparr>"
    by blast
  from ms have ms_eq: "ms = [welcomeMessage, \<lparr>sender = User, msg_text = Some (lit ''hi'')\<rparr>]"
    by (simp add: run_hi)
  have tool: "toolResult (orderNumber (unit_double_of 0))
      = lit ''Order placed successfully. Order number: 0''"
    by (simp add: toolResult_def orderNumber_zero Number_toString_zero lit_def)
  have "run (mounted True)
     [Change (lit ''hi''), Submit, Settled (Fulfilled ?res) (unit_double_of 0),
      Settled (Fulfilled ?reply) (unit_double_of 0)]
    = step (step ?s (Settled (Fulfilled ?res) (unit_double_of 0)))
        (Settled (Fulfilled ?reply) (unit_double_of 0))"
    by (simp add: run_def)
  also have "\<dots> = s1\<lparr>messages := ms @
                   [\<lparr>sender = Bot,
                     msg_text = Some (lit ''Sorry, something went wrong. Please try again.'')\<rparr>],
                 isLoading := False, suspended := None\<rparr>"
    by (simp only: s1 s2)
  finally show ?thesis
    unfolding s1_eq ms_eq tool run_hi by simp
qed

section \<open>The order number\<close>

lemma ilog2_eq:
  assumes "quotient_of x = (p, q)"
  shows "ilog2 x = (if 2 powi (bitlen p - bitlen q) \<le> x then bitlen p - bitlen q
                    else bitlen p - bitlen q - 1)"
  using assms by (simp add: ilog2_def Let_def)

lemma bitlen_pos_bounds:
  assumes "0 < (p :: int)"
  obtains m where "bitlen p = int (Suc m)" and "2 ^ m \<le> p" and "p < 2 ^ Suc m"
proof -
  from assms have "bitlen p \<noteq> 0" by (simp add: bitlen_eq_zero_iff)
  with bitlen_nonneg [of p] have "0 < bitlen p" by simp
  then obtain m where m: "bitlen p = int (Suc m)"
    by (metis Suc_pred' nat_0_iff not_less nat_eq_iff2 zero_less_nat_eq)
  from m have "nat (bitlen p - 1) = m" and "nat (bitlen p) = Suc m" by simp_all
  with bitlen_bounds [OF assms] have "2 ^ m \<le> p" and "p < 2 ^ Suc m"
    by (simp_all only:)
  with m show ?thesis by (rule that)
qed

lemma ilog2_bounds:
  assumes "0 < x"
  shows "2 powi ilog2 x \<le> x" and "x < 2 powi (ilog2 x + 1)"
proof -
  obtain p q where pq: "quotient_of x = (p, q)" by (cases "quotient_of x")
  then have q: "0 < q" and x: "x = of_int p / of_int q"
    by (simp_all add: quotient_of_denom_pos quotient_of_div)
  from assms q x have p: "0 < p" by (simp add: zero_less_divide_iff)
  from p obtain m where m: "bitlen p = int (Suc m)" "2 ^ m \<le> p" "p < 2 ^ Suc m"
    by (rule bitlen_pos_bounds)
  from q obtain n where n: "bitlen q = int (Suc n)" "2 ^ n \<le> q" "q < 2 ^ Suc n"
    by (rule bitlen_pos_bounds)
  let ?d = "bitlen p - bitlen q"
  have pm: "(2::rat) ^ m \<le> of_int p" "of_int p < (2::rat) ^ Suc m"
    using m(2,3) by (metis of_int_le_iff of_int_numeral of_int_power,
        metis of_int_less_iff of_int_numeral of_int_power)
  have qn: "(2::rat) ^ n \<le> of_int q" "of_int q < (2::rat) ^ Suc n"
    using n(2,3) by (metis of_int_le_iff of_int_numeral of_int_power,
        metis of_int_less_iff of_int_numeral of_int_power)
  have d: "?d = int m - int n" using m(1) n(1) by simp
  have low: "(2::rat) powi (?d - 1) \<le> x"
  proof -
    have "?d - 1 = int m - int (Suc n)" by (simp add: d)
    then have "(2::rat) powi (?d - 1) = 2 powi (int m - int (Suc n))" by (simp only:)
    also have "\<dots> = 2 powi int m / 2 powi int (Suc n)" by (rule power_int_diff) simp
    also have "\<dots> = 2 ^ m / 2 ^ Suc n" by (simp only: power_int_of_nat)
    also have "\<dots> \<le> of_int p / of_int q"
      using pm(1) qn(2) q p by (intro frac_le) simp_all
    finally show ?thesis by (simp add: x)
  qed
  have high: "x < (2::rat) powi (?d + 1)"
  proof -
    have "x = of_int p / of_int q" by (rule x)
    also have "\<dots> < 2 ^ Suc m / 2 ^ n"
      using pm(2) qn(1) q p by (intro frac_less) simp_all
    also have "\<dots> = 2 powi int (Suc m) / 2 powi int n" by (simp only: power_int_of_nat)
    also have "\<dots> = 2 powi (int (Suc m) - int n)" by (rule power_int_diff [symmetric]) simp
    also have "\<dots> = 2 powi (?d + 1)"
    proof -
      have "int (Suc m) - int n = ?d + 1" by (simp add: d)
      then show ?thesis by (simp only:)
    qed
    finally show ?thesis .
  qed
  show "2 powi ilog2 x \<le> x"
    using low by (simp add: ilog2_eq [OF pq])
  show "x < 2 powi (ilog2 x + 1)"
    using high by (simp add: ilog2_eq [OF pq] not_le)
qed

lemma ilog2_less:
  assumes "0 < x" and "x < 2 powi n" and "0 \<le> n"
  shows "ilog2 x < n"
proof -
  from ilog2_bounds(1) [OF assms(1)] assms(2) have "(2::rat) powi ilog2 x < 2 powi n"
    by simp
  then show ?thesis using assms(3) by (intro power_int_le_imp_less_exp [of "2::rat"]) simp_all
qed

lemma roundTiesToEven_le: "of_int (roundTiesToEven y) \<le> y + 1 / 2"
proof -
  define f where "f = \<lfloor>y\<rfloor>"
  have "of_int f \<le> y" by (simp add: f_def)
  then show ?thesis
    unfolding roundTiesToEven_def Let_def f_def [symmetric] by auto
qed

lemma roundTiesToEven_nonneg: "0 \<le> y \<Longrightarrow> 0 \<le> roundTiesToEven y"
  by (auto simp: roundTiesToEven_def Let_def)

lemma below_one_double:
  assumes "is_double r" and "0 \<le> r" and "r < 1"
  shows "r \<le> 1 - 1 / 2 ^ 53"
proof (cases "r = 0")
  case True
  then show ?thesis by simp
next
  case False
  with assms(2) have pos: "0 < r" by simp
  then have abs: "\<bar>r\<bar> = r" by simp
  have "ilog2 r < 0"
    using pos assms(3) by (intro ilog2_less) simp_all
  show ?thesis
  proof (cases "ilog2 r = - 1")
    case True
    then have "ulp_exp r = - 53" by (simp add: ulp_exp_def abs)
    with assms(1) False have "of_int \<lfloor>r / 2 powi (- 53)\<rfloor> = r / 2 powi (- 53)"
      by (simp add: is_double_def Let_def)
    then have k: "of_int \<lfloor>r * 2 ^ 53\<rfloor> = r * 2 ^ 53"
      by simp
    define j where "j = \<lfloor>r * 2 ^ 53\<rfloor>"
    have rj: "r * 2 ^ 53 = of_int j" unfolding j_def by (rule k [symmetric])
    from assms(3) have "r * 2 ^ 53 < 2 ^ 53" by simp
    with rj have "(of_int j :: rat) < of_int (2 ^ 53)" by simp
    then have "j < 2 ^ 53" by (simp only: of_int_less_iff)
    then have "j \<le> 2 ^ 53 - 1" by simp
    then have "(of_int j :: rat) \<le> of_int (2 ^ 53 - 1)" by (simp only: of_int_le_iff)
    with rj have "r * 2 ^ 53 \<le> 2 ^ 53 - 1" by simp
    then show ?thesis by (simp add: field_simps)
  next
    case False
    with \<open>ilog2 r < 0\<close> have "ilog2 r + 1 \<le> - 1" by simp
    then have "(2::rat) powi (ilog2 r + 1) \<le> 2 powi (- 1)"
      by (intro power_int_increasing) simp_all
    with ilog2_bounds(2) [OF pos] have "r < 1 / 2" by simp
    then show ?thesis by simp
  qed
qed

lemma fl_product_bounds:
  assumes "0 \<le> r" and "r \<le> 1 - 1 / 2 ^ 53"
  shows "0 \<le> fl (r * 10000)" and "fl (r * 10000) < 10000"
proof -
  let ?x = "r * 10000"
  have both: "0 \<le> fl ?x \<and> fl ?x < 10000"
  proof (cases "?x = 0")
    case True
    then show ?thesis by (simp add: fl_def)
  next
    case False
    with assms(1) have pos: "0 < ?x" by simp
    then have abs: "\<bar>?x\<bar> = ?x" by simp
    from assms(2) have "?x < 2 powi 14" by simp
    with pos have "ilog2 ?x < 14" by (intro ilog2_less) simp_all
    then have "ulp_exp ?x \<le> - 39" by (simp add: ulp_exp_def abs)
    then have le: "ulp_exp ?x \<le> - 39" .
    define n where "n = nat (- ulp_exp ?x)"
    from le have n: "ulp_exp ?x = - int n" and n39: "39 \<le> n"
      by (simp_all add: n_def)
    have q: "(2::rat) powi (ulp_exp ?x) = 1 / 2 ^ n"
      using power_int_minus [of "2::rat" "int n"] by (simp add: n divide_inverse)
    let ?y = "?x * 2 ^ n"
    have fl: "fl ?x = of_int (roundTiesToEven ?y) / 2 ^ n"
      using False by (simp add: fl_def Let_def q)
    have y0: "0 \<le> ?y" using assms(1) by simp
    then have lower: "0 \<le> fl ?x"
      by (simp add: fl roundTiesToEven_nonneg)
    have "(2::rat) ^ 39 \<le> 2 ^ n" using n39 by (intro power_increasing) simp_all
    then have big: "(2::rat) ^ 52 < 10000 * 2 ^ n" by simp
    have "?y \<le> (1 - 1 / 2 ^ 53) * 10000 * 2 ^ n"
      using assms(2) by (intro mult_right_mono) simp_all
    also have "\<dots> = 10000 * 2 ^ n - 10000 * 2 ^ n / 2 ^ 53" by (simp add: algebra_simps)
    also have "\<dots> < 10000 * 2 ^ n - 1 / 2" using big by simp
    finally have "?y + 1 / 2 < 10000 * 2 ^ n" by simp
    with roundTiesToEven_le [of ?y] have "of_int (roundTiesToEven ?y) < (10000 * 2 ^ n :: rat)"
      by simp
    then have "fl ?x < 10000" by (simp add: fl field_simps)
    with lower show ?thesis ..
  qed
  from both show "0 \<le> fl (r * 10000)" and "fl (r * 10000) < 10000" by simp_all
qed

lemma digits_length:
  assumes "n < 10000"
  shows "1 \<le> length (digits n) \<and> length (digits n) \<le> 4"
proof -
  have d1: "length (digits k) = 1" if "k < 10" for k
    using that by (simp add: digits.simps [of k])
  have d2: "length (digits k) \<le> 2" if "k < 100" for k
    using that d1 [of "k div 10"] by (simp add: digits.simps [of k])
  have d3: "length (digits k) \<le> 3" if "k < 1000" for k
    using that d2 [of "k div 10"] by (simp add: digits.simps [of k])
  have d4: "length (digits k) \<le> 4" if "k < 10000" for k
    using that d3 [of "k div 10"] by (simp add: digits.simps [of k])
  have "1 \<le> length (digits n)" by (simp add: digits.simps [of n])
  with d4 [OF assms] show ?thesis by simp
qed

text \<open>
  C8: whatever \<open>Math.random()\<close> returns, the order number of line 92 is an integer from
  0 to 9999, and its decimal form has one to four digits. The product is rounded to
  binary64 before the floor is taken; the largest Number below 1 still gives 9999.
\<close>

theorem order_number_range:
  "0 \<le> orderNumber r \<and> orderNumber r \<le> 9999
   \<and> 1 \<le> length (Number_toString (orderNumber r))
   \<and> length (Number_toString (orderNumber r)) \<le> 4"
proof -
  from Rep_unit_double [of r]
  have dbl: "is_double (Rep_unit_double r)" and ge: "0 \<le> Rep_unit_double r"
    and lt: "Rep_unit_double r < 1"
    by simp_all
  from below_one_double [OF dbl ge lt] have "Rep_unit_double r \<le> 1 - 1 / 2 ^ 53" .
  from fl_product_bounds [OF ge this]
  have "0 \<le> fl (Rep_unit_double r * 10000)" and "fl (Rep_unit_double r * 10000) < 10000" .
  then have lo: "0 \<le> orderNumber r" and "orderNumber r < 10000"
    by (simp_all add: orderNumber_def Math_floor_def floor_less_iff)
  then have hi: "orderNumber r \<le> 9999" by simp
  from lo hi have "nat (orderNumber r) < 10000" by simp
  from digits_length [OF this] lo
  have "1 \<le> length (Number_toString (orderNumber r))
      \<and> length (Number_toString (orderNumber r)) \<le> 4"
    by (simp add: Number_toString_def)
  with lo hi show ?thesis by simp
qed

lemma largest_is_double: "is_double (1 - 1 / 2 ^ 53)"
  by code_simp

lemma fl_largest: "fl ((1 - 1 / 2 ^ 53) * 10000) = 10000 - 1 / 2 ^ 39"
  by code_simp

lemma orderNumber_largest: "orderNumber (unit_double_of (1 - 1 / 2 ^ 53)) = 9999"
proof -
  have "Rep_unit_double (unit_double_of (1 - 1 / 2 ^ 53)) = 1 - 1 / 2 ^ 53"
    using largest_is_double by (simp add: unit_double_of.rep_eq)
  then have "orderNumber (unit_double_of (1 - 1 / 2 ^ 53)) = \<lfloor>10000 - 1 / 2 ^ 39 :: rat\<rfloor>"
    by (simp only: orderNumber_def Math_floor_def fl_largest)
  also have "\<dots> = 9999" by (simp add: floor_eq_iff)
  finally show ?thesis .
qed

theorem order_number_range_witness:
  "orderNumber (unit_double_of (1 - 1 / 2 ^ 53)) = 9999
   \<and> length (Number_toString (orderNumber (unit_double_of (1 - 1 / 2 ^ 53)))) \<le> 4
   \<and> orderNumber (unit_double_of 0) = 0"
proof -
  from order_number_range [of "unit_double_of (1 - 1 / 2 ^ 53)"]
  have "length (Number_toString (orderNumber (unit_double_of (1 - 1 / 2 ^ 53)))) \<le> 4"
    by (elim conjE)
  with orderNumber_largest orderNumber_zero show ?thesis by (intro conjI)
qed

end
